theory Spec2Isabelle
  imports Main "HOL-Library.Sublist"
begin

section \<open>Strings of the host language\<close>

text \<open>
  The route handler works on JavaScript strings. They are modelled as \<open>string\<close>
  (a list of characters); \<open>length\<close> is the string's \<open>length\<close> property and
  \<open>take\<close>/\<open>drop\<close> are \<open>slice(0, n)\<close> and \<open>slice(n)\<close> for a non-negative \<open>n\<close>
  (both clamp at the end of the string, as \<open>slice\<close> does). A \<open>char\<close> holds a code
  unit below 256, so the model covers the texts whose code units are in that range;
  every tag, attribute name and separator the program looks for is ASCII.
\<close>

text \<open>
  \<open>s.lastIndexOf(pat, pos)\<close>: the greatest index \<open>i \<le> min pos (length s - length pat)\<close>
  at which \<open>pat\<close> occurs in \<open>s\<close>, and \<open>-1\<close> when there is none. \<open>lastIndexOf_from\<close>
  is the downward scan from a start index.
\<close>

fun lastIndexOf_from :: "string \<Rightarrow> string \<Rightarrow> nat \<Rightarrow> int" where
  "lastIndexOf_from s pat 0 = (if prefix pat s then 0 else - 1)"
| "lastIndexOf_from s pat (Suc i) =
     (if prefix pat (drop (Suc i) s) then int (Suc i) else lastIndexOf_from s pat i)"

definition lastIndexOf :: "string \<Rightarrow> string \<Rightarrow> nat \<Rightarrow> int" where
  "lastIndexOf s pat pos =
     (if length s < length pat then - 1
      else lastIndexOf_from s pat (min pos (length s - length pat)))"

section \<open>Regular expressions of the sanitizer\<close>

text \<open>
  \<open>sanitizeHTML\<close> is a chain of \<open>String.prototype.replace\<close> calls with global
  regular expressions. The expressions are kept as data and run by a backtracking
  matcher that follows the matching order of the language: a sequence tries the
  results of its first part in order, an alternative tries its left branch first, a
  greedy star prefers one more iteration, a lazy star prefers to stop, and an iteration
  that consumes nothing is rejected.

  The state of the matcher is the character just before the current position (needed
  by \<open>\b\<close> and by \<open>^\<close> under the \<open>m\<close> flag; \<open>None\<close> at the start of the input) and the
  text still to be read.
\<close>

datatype regex =
    Eps
  | Cls "char \<Rightarrow> bool"
  | Seq regex regex
  | Alt regex regex
  | Star regex
  | Lazy regex
  | NotAhead regex
  | WordB
  | LineStart

type_synonym mstate = "char option \<times> string"

definition lower_letters :: string where
  "lower_letters = ''abcdefghijklmnopqrstuvwxyz''"

definition upper_letters :: string where
  "upper_letters = ''ABCDEFGHIJKLMNOPQRSTUVWXYZ''"

text \<open>The class \<open>\w\<close> behind \<open>\b\<close>: ASCII letters, digits and the underscore.\<close>

definition is_word_char :: "char \<Rightarrow> bool" where
  "is_word_char c \<longleftrightarrow> c \<in> set (''0123456789_'' @ upper_letters @ lower_letters)"

text \<open>Line feed and carriage return.\<close>

definition is_line_terminator :: "char \<Rightarrow> bool" where
  "is_line_terminator c \<longleftrightarrow> c = CHR 0x0A \<or> c = CHR 0x0D"

text \<open>
  The class \<open>\s\<close>, which is also the set of characters \<open>trim\<close> removes: tab, line feed,
  vertical tab, form feed, carriage return, space and no-break space (the members of
  the class among the characters a \<open>char\<close> can hold).
\<close>

definition is_space :: "char \<Rightarrow> bool" where
  "is_space c \<longleftrightarrow>
     c \<in> set [CHR 0x09, CHR 0x0A, CHR 0x0B, CHR 0x0C, CHR 0x0D, CHR 0x20, CHR 0xA0]"

definition word_before :: "char option \<Rightarrow> bool" where
  "word_before p = (case p of None \<Rightarrow> False | Some c \<Rightarrow> is_word_char c)"

definition word_after :: "string \<Rightarrow> bool" where
  "word_after s = (case s of [] \<Rightarrow> False | c # _ \<Rightarrow> is_word_char c)"

function ms :: "regex \<Rightarrow> mstate \<Rightarrow> mstate list" where
  "ms Eps st = [st]"
| "ms (Cls P) st =
     (case snd st of [] \<Rightarrow> [] | c # cs \<Rightarrow> if P c then [(Some c, cs)] else [])"
| "ms (Seq a b) st = concat (map (\<lambda>st'. ms b st') (ms a st))"
| "ms (Alt a b) st = ms a st @ ms b st"
| "ms (Star a) st =
     concat (map (\<lambda>st'. if length (snd st') < length (snd st) then ms (Star a) st' else [])
               (ms a st)) @ [st]"
| "ms (Lazy a) st =
     st # concat (map (\<lambda>st'. if length (snd st') < length (snd st) then ms (Lazy a) st' else [])
               (ms a st))"
| "ms (NotAhead a) st = (if ms a st = [] then [st] else [])"
| "ms WordB st = (if word_before (fst st) \<noteq> word_after (snd st) then [st] else [])"
| "ms LineStart st =
     (case fst st of None \<Rightarrow> [st] | Some c \<Rightarrow> if is_line_terminator c then [st] else [])"
  by pat_completeness auto
termination
  by (relation "inv_image (less_than <*lex*> less_than) (\<lambda>(r, st). (size r, length (snd st)))")
    auto

text \<open>
  The equations of the two stars mention themselves under a \<open>\<lambda>\<close>, so none is a default
  rewrite rule; \<open>ms_plain\<close> collects the others.
\<close>

declare ms.simps [simp del]

lemmas ms_plain = ms.simps(1-4) ms.simps(7-9)

text \<open>The match the engine reports at a position: the first one in matching order.\<close>

definition first_match :: "regex \<Rightarrow> mstate \<Rightarrow> mstate option" where
  "first_match r st = (case ms r st of [] \<Rightarrow> None | st' # _ \<Rightarrow> Some st')"

text \<open>
  \<open>s.replace(r, rep)\<close> for a global \<open>r\<close> and a replacement text without \<open>$\<close>: scan from
  the left; where \<open>r\<close> matches, emit \<open>rep\<close> and go on after the match (one character
  further when the match is empty), otherwise copy one character.
\<close>

function replace_from :: "regex \<Rightarrow> string \<Rightarrow> char option \<Rightarrow> string \<Rightarrow> string" where
  "replace_from r rep p s =
     (case first_match r (p, s) of
        Some (p', s') \<Rightarrow>
          if length s' < length s then rep @ replace_from r rep p' s'
          else (case s of [] \<Rightarrow> rep | c # cs \<Rightarrow> rep @ c # replace_from r rep (Some c) cs)
      | None \<Rightarrow> (case s of [] \<Rightarrow> [] | c # cs \<Rightarrow> c # replace_from r rep (Some c) cs))"
  by pat_completeness auto
termination
  by (relation "measure (\<lambda>(r, rep, p, s). length s)") auto

declare replace_from.simps [simp del]

definition replace_all :: "regex \<Rightarrow> string \<Rightarrow> string \<Rightarrow> string" where
  "replace_all r rep s = replace_from r rep None s"

subsection \<open>Building blocks\<close>

definition seq :: "regex list \<Rightarrow> regex" where
  "seq rs = foldr Seq rs Eps"

definition alts :: "regex \<Rightarrow> regex list \<Rightarrow> regex" where
  "alts r rs = foldl Alt r rs"

definition chr :: "char \<Rightarrow> regex" where
  "chr c = Cls (\<lambda>x. x = c)"

definition lit :: "string \<Rightarrow> regex" where
  "lit s = seq (map chr s)"

text \<open>
  Under the \<open>i\<close> flag two characters match when their upper-case forms agree. Every
  literal of the sanitizer's expressions is ASCII, and no character outside ASCII has
  an ASCII upper-case form in this comparison, so only the letters \<open>a\<close> to \<open>z\<close> fold.
\<close>

definition upper :: "char \<Rightarrow> char" where
  "upper c = (case map_of (zip lower_letters upper_letters) c of Some u \<Rightarrow> u | None \<Rightarrow> c)"

definition chr_i :: "char \<Rightarrow> regex" where
  "chr_i c = Cls (\<lambda>x. upper x = upper c)"

definition lit_i :: "string \<Rightarrow> regex" where
  "lit_i s = seq (map chr_i s)"

definition not_chr :: "char \<Rightarrow> regex" where
  "not_chr c = Cls (\<lambda>x. x \<noteq> c)"

definition plus :: "regex \<Rightarrow> regex" where
  "plus r = Seq r (Star r)"

text \<open>
  \<open>/<tag\b[^<]*(?:(?!<\/tag>)<[^<]*)*<\/tag>/gi\<close>, the expression used for \<open>head\<close>,
  \<open>script\<close>, \<open>style\<close>, \<open>footer\<close>, \<open>nav\<close>, \<open>form\<close> and \<open>iframe\<close>.
\<close>

definition block_re :: "string \<Rightarrow> regex" where
  "block_re tag =
     seq [lit_i (''<'' @ tag), WordB, Star (not_chr (CHR ''<'')),
          Star (seq [NotAhead (lit_i (''</'' @ tag @ ''>'')), chr_i (CHR ''<''),
                     Star (not_chr (CHR ''<''))]),
          lit_i (''</'' @ tag @ ''>'')]"

text \<open>\<open>/<!--[\s\S]*?-->/g\<close>\<close>

definition comment_re :: regex where
  "comment_re = seq [lit ''<!--'', Lazy (Cls (\<lambda>c. True)), lit ''-->'']"

text \<open>\<open>/\s(onclick|onload|onerror|id|class|style|data-.*?)="[^"]*"/gi\<close>\<close>

definition attribute_re :: regex where
  "attribute_re =
     seq [Cls is_space,
          alts (lit_i ''onclick'')
            [lit_i ''onload'', lit_i ''onerror'', lit_i ''id'', lit_i ''class'', lit_i ''style'',
             seq [lit_i ''data-'', Lazy (Cls (\<lambda>c. \<not> is_line_terminator c))]],
          chr_i (CHR ''=''), chr_i (CHR 0x22), Star (not_chr (CHR 0x22)), chr_i (CHR 0x22)]"

text \<open>\<open>/^\s*[\r\n]/gm\<close>\<close>

definition blank_line_re :: regex where
  "blank_line_re = seq [LineStart, Star (Cls is_space), Cls is_line_terminator]"

text \<open>\<open>/\s+/g\<close>\<close>

definition spaces_re :: regex where
  "spaces_re = plus (Cls is_space)"

definition trim :: "string \<Rightarrow> string" where
  "trim s = rev (dropWhile is_space (rev (dropWhile is_space s)))"

section \<open>Sanitizer\<close>

text \<open>The removals of \<open>sanitizeHTML\<close>, in the order of the source.\<close>

definition strip_markup :: "string \<Rightarrow> string" where
  "strip_markup html =
     replace_all attribute_re ''''
      (replace_all (block_re ''iframe'') ''''
       (replace_all (block_re ''form'') ''''
        (replace_all (block_re ''nav'') ''''
         (replace_all (block_re ''footer'') ''''
          (replace_all comment_re ''''
           (replace_all (block_re ''style'') ''''
            (replace_all (block_re ''script'') ''''
             (replace_all (block_re ''head'') '''' html))))))))"

text \<open>The whitespace steps: blank lines removed, runs collapsed to one space, trimmed.\<close>

definition normalize_space :: "string \<Rightarrow> string" where
  "normalize_space s = trim (replace_all spaces_re '' '' (replace_all blank_line_re '''' s))"

definition sanitizeHTML :: "string \<Rightarrow> string" where
  "sanitizeHTML html = normalize_space (strip_markup html)"

subsection \<open>Notions used to state what the sanitizer does\<close>

text \<open>What \<open>replace(/\s+/g, " ")\<close> computes.\<close>

function collapse :: "string \<Rightarrow> string" where
  "collapse [] = []"
| "collapse (c # cs) =
     (if is_space c then CHR '' '' # collapse (dropWhile is_space cs) else c # collapse cs)"
  by pat_completeness auto
termination
proof (relation "measure length")
  fix c :: char and cs :: string
  show "(dropWhile is_space cs, c # cs) \<in> measure length"
    using length_dropWhile_le [of is_space cs] by simp
qed simp_all

text \<open>
  A text is \<open>collapsed\<close> when its only white-space characters are single spaces with no
  white space after them.
\<close>

fun collapsed :: "string \<Rightarrow> bool" where
  "collapsed [] = True"
| "collapsed [c] = (is_space c \<longrightarrow> c = CHR '' '')"
| "collapsed (c # d # ds) = ((is_space c \<longrightarrow> c = CHR '' '' \<and> \<not> is_space d) \<and> collapsed (d # ds))"

text \<open>
  A function on texts is \<open>shrinking\<close> when it never lengthens a text and leaves
  unchanged every text that it does not shorten.
\<close>

definition shrinking :: "(string \<Rightarrow> string) \<Rightarrow> bool" where
  "shrinking f \<longleftrightarrow> (\<forall>s. length (f s) \<le> length s \<and> (length (f s) = length s \<longrightarrow> f s = s))"

section \<open>Chunker\<close>

definition MAX_CHUNK_LENGTH :: nat where
  "MAX_CHUNK_LENGTH = 15000"

definition MAX_REQUESTS_PER_MINUTE :: nat where
  "MAX_REQUESTS_PER_MINUTE = 3"

definition RATE_LIMIT_DELAY :: nat where
  "RATE_LIMIT_DELAY = 20000"

text \<open>
  The index after which \<open>splitHTMLIntoChunks\<close> cuts the remaining text: the last
  \<open></div>\<close> starting at or before the limit, or the limit itself when there is none.
\<close>

definition splitIndex :: "nat \<Rightarrow> string \<Rightarrow> int" where
  "splitIndex lim remainingHtml =
     (let i = lastIndexOf remainingHtml ''</div>'' lim
      in if i = - 1 then int lim else i)"

lemma lastIndexOf_from_ge: "- 1 \<le> lastIndexOf_from s pat i"
  by (induction i) auto

lemma lastIndexOf_ge: "- 1 \<le> lastIndexOf s pat pos"
  by (simp add: lastIndexOf_def lastIndexOf_from_ge)

lemma splitIndex_nonneg: "0 \<le> splitIndex lim s"
  using lastIndexOf_ge [of s "''</div>''" lim]
  by (auto simp: splitIndex_def Let_def)

text \<open>
  The \<open>while\<close> loop of \<open>splitHTMLIntoChunks\<close>, with the limit as a parameter:
  \<open>chunk_loop lim remainingHtml\<close> is the list of chunks pushed from the state in which
  \<open>remainingHtml\<close> is still to be split.
\<close>

function chunk_loop :: "nat \<Rightarrow> string \<Rightarrow> string list" where
  "chunk_loop lim remainingHtml =
     (if length remainingHtml = 0 then []
      else if length remainingHtml \<le> lim then [remainingHtml]
      else take (nat (splitIndex lim remainingHtml + 6)) remainingHtml
             # chunk_loop lim (drop (nat (splitIndex lim remainingHtml + 6)) remainingHtml))"
  by pat_completeness auto
termination
proof (relation "measure (\<lambda>(lim, s). length s)")
  show "wf (measure (\<lambda>(lim, s). length s))" by simp
next
  fix lim :: nat and remainingHtml :: string
  assume "length remainingHtml \<noteq> 0"
  moreover have "0 < nat (splitIndex lim remainingHtml + 6)"
    using splitIndex_nonneg [of lim remainingHtml] by simp
  ultimately show "((lim, drop (nat (splitIndex lim remainingHtml + 6)) remainingHtml),
      (lim, remainingHtml)) \<in> measure (\<lambda>(lim, s). length s)"
    by simp
qed

declare chunk_loop.simps [simp del]

definition splitHTMLIntoChunks :: "string \<Rightarrow> string list" where
  "splitHTMLIntoChunks html = chunk_loop MAX_CHUNK_LENGTH html"

section \<open>Thrown values\<close>

text \<open>
  What the browser, the completion service, \<open>req.json()\<close> and the program's own
  \<open>throw\<close> statements can raise: an \<open>Error\<close> with its message, a
  \<open>SelectorGenerationError\<close> (the subclass the endpoint tests for with \<open>instanceof\<close>),
  or a value that is not an \<open>Error\<close> at all. The validation library's \<open>ZodError\<close> is
  raised by \<open>urlSchema.parse\<close> only, and is modelled there.
  \<open>message_or_unknown\<close> is the expression
  \<open>error instanceof Error ? error.message : "Error desconocido"\<close>.
\<close>

datatype exn =
    Error string
  | SelectorGenerationError string
  | NotAnError

fun message_or_unknown :: "exn \<Rightarrow> string" where
  "message_or_unknown (Error m) = m"
| "message_or_unknown (SelectorGenerationError m) = m"
| "message_or_unknown NotAnError = ''Error desconocido''"

section \<open>Inference client\<close>

text \<open>
  A per-chunk selector map is a \<open>Record<string, string>\<close>: a partial map from field
  names to selector texts.
\<close>

type_synonym selectors = "string \<rightharpoonup> string"

text \<open>
  What \<open>generateSelector\<close> depends on outside the program: whether
  \<open>process.env.OPENAI_API_KEY\<close> is set, the answer of the completion service to the
  request made for the \<open>i\<close>-th chunk (a rejection, or the content of the first choice,
  \<open>None\<close> when there is none), and \<open>JSON.parse\<close> (\<open>None\<close> when it throws).
\<close>

record inference_env =
  api_key_set :: bool
  completion :: "nat \<Rightarrow> string \<Rightarrow> exn + string option"
  JSON_parse :: "string \<Rightarrow> selectors option"

text \<open>
  What can be observed of \<open>processHTMLChunks\<close> from outside: a request sent to the
  completion service for a chunk (by index), and a suspension of so many milliseconds.
\<close>

datatype event = InferenceCall nat | Suspend nat

definition msg_no_key :: string where
  "msg_no_key = ''OPENAI_API_KEY no est'' @ [CHR 0xE1] @ '' configurada''"

definition msg_no_selector :: string where
  "msg_no_selector = ''OpenAI no gener'' @ [CHR 0xF3] @ '' ning'' @ [CHR 0xFA] @ ''n selector''"

definition msg_not_json :: string where
  "msg_not_json = ''Respuesta no es JSON v'' @ [CHR 0xE1] @ ''lido''"

text \<open>
  \<open>generateSelector\<close>: the events it causes and its outcome, \<open>Inl\<close> the thrown
  \<open>SelectorGenerationError\<close>, \<open>Inr\<close> the JSON text. Every error raised inside is
  caught by the outer \<open>catch\<close> and thrown again as a \<open>SelectorGenerationError\<close> with
  the same message.
\<close>

definition generateSelector :: "inference_env \<Rightarrow> nat \<Rightarrow> string \<Rightarrow> event list \<times> (exn + string)" where
  "generateSelector env i html =
     (if \<not> api_key_set env then ([], Inl (SelectorGenerationError msg_no_key))
      else
        (case completion env i html of
           Inl e \<Rightarrow> ([InferenceCall i], Inl (SelectorGenerationError (message_or_unknown e)))
         | Inr None \<Rightarrow> ([InferenceCall i], Inl (SelectorGenerationError msg_no_selector))
         | Inr (Some content) \<Rightarrow>
             if content = [] then ([InferenceCall i], Inl (SelectorGenerationError msg_no_selector))
             else
               (case JSON_parse env content of
                  None \<Rightarrow> ([InferenceCall i], Inl (SelectorGenerationError msg_not_json))
                | Some v \<Rightarrow> ([InferenceCall i], Inr content))))"

text \<open>
  The \<open>for\<close> loop of \<open>processHTMLChunks\<close> from index \<open>i\<close> on, with the chunks still to
  be processed and the current \<open>requestCount\<close>: the selector maps pushed and the events
  caused, in order.
\<close>

fun process_from :: "inference_env \<Rightarrow> nat \<Rightarrow> string list \<Rightarrow> nat \<Rightarrow> selectors list \<times> event list" where
  "process_from env i [] requestCount = ([], [])"
| "process_from env i (chunk # chunks) requestCount =
     (let (waited, requestCount1) =
            (if requestCount \<ge> MAX_REQUESTS_PER_MINUTE then ([Suspend RATE_LIMIT_DELAY], 0)
             else ([], requestCount));
          (called, outcome) = generateSelector env i chunk
      in case (case outcome of Inl e \<Rightarrow> None | Inr selectorsJson \<Rightarrow> JSON_parse env selectorsJson) of
           Some selectors \<Rightarrow>
             (let (results, events) = process_from env (Suc i) chunks (Suc requestCount1)
              in (selectors # results, waited @ called @ events))
         | None \<Rightarrow>
             (let (results, events) = process_from env (Suc i) chunks requestCount1
              in (results, waited @ called @ events)))"

definition processHTMLChunks :: "inference_env \<Rightarrow> string list \<Rightarrow> selectors list \<times> event list" where
  "processHTMLChunks env chunks = process_from env 0 chunks 0"

section \<open>Selector combiner\<close>

definition allKeys :: "string list" where
  "allKeys = [''medioPago'', ''titulo'', ''descripcion'', ''fecha'', ''condiciones'']"

text \<open>\<open>Boolean(v)\<close> for a value that is a string or \<open>undefined\<close>.\<close>

fun truthy :: "string option \<Rightarrow> bool" where
  "truthy None = False"
| "truthy (Some v) = (v \<noteq> [])"

text \<open>\<open>xs.join(sep)\<close>; an \<open>undefined\<close> element is written as the empty text.\<close>

fun text_of :: "string option \<Rightarrow> string" where
  "text_of None = []"
| "text_of (Some v) = v"

fun join :: "string \<Rightarrow> string option list \<Rightarrow> string" where
  "join sep [] = []"
| "join sep [x] = text_of x"
| "join sep (x # y # ys) = text_of x @ sep @ join sep (y # ys)"

definition combineSelectors :: "selectors list \<Rightarrow> selectors" where
  "combineSelectors selectorsList =
     foldl (\<lambda>combined key.
              combined(key \<mapsto> join '', '' (filter truthy (map (\<lambda>s. s key) selectorsList))))
       Map.empty allKeys"

section \<open>Record extractor\<close>

record Promotion =
  medioPago :: string
  titulo :: string
  descripcion :: string
  url :: string
  fecha :: string
  condiciones :: string

text \<open>
  The rendered document as the extraction function sees it:
  \<open>querySelectorAll\<close> gives, for a selector, the \<open>textContent\<close> of the matching
  elements in document order (\<open>None\<close> for a \<open>null\<close> \<open>textContent\<close>), or throws
  (\<open>None\<close>) on a selector it cannot parse; \<open>location_href\<close> is \<open>window.location.href\<close>.
\<close>

record document =
  querySelectorAll :: "string \<Rightarrow> string option list option"
  location_href :: string

text \<open>\<open>el.textContent?.trim() || ""\<close>\<close>

definition element_text :: "string option \<Rightarrow> string" where
  "element_text t = (case t of None \<Rightarrow> [] | Some s \<Rightarrow> trim s)"

definition findElements :: "document \<Rightarrow> string option \<Rightarrow> string list" where
  "findElements doc selector =
     (if \<not> truthy selector then []
      else (case querySelectorAll doc (text_of selector) of
              None \<Rightarrow> []
            | Some els \<Rightarrow> map element_text els))"

text \<open>\<open>xs[index] || ""\<close>\<close>

definition at_or_empty :: "string list \<Rightarrow> nat \<Rightarrow> string" where
  "at_or_empty xs index = (if index < length xs then xs ! index else [])"

text \<open>The records built by the \<open>map\<close> over \<open>titulos\<close>, before the \<open>filter\<close>.\<close>

definition candidates :: "document \<Rightarrow> selectors \<Rightarrow> Promotion list" where
  "candidates doc selectors =
     (let titulos = findElements doc (selectors ''titulo'');
          descripciones = findElements doc (selectors ''descripcion'');
          fechas = findElements doc (selectors ''fecha'');
          condiciones_found = findElements doc (selectors ''condiciones'');
          mediosPago = findElements doc (selectors ''medioPago'')
      in map (\<lambda>(index, titulo_text).
               \<lparr>medioPago = at_or_empty mediosPago index,
                titulo = titulo_text,
                descripcion = at_or_empty descripciones index,
                url = location_href doc,
                fecha = at_or_empty fechas index,
                condiciones = at_or_empty condiciones_found index\<rparr>)
           (enumerate 0 titulos))"

text \<open>The function evaluated in the page by \<open>scrapeUrl\<close>.\<close>

definition extractPromotions :: "document \<Rightarrow> selectors \<Rightarrow> Promotion list" where
  "extractPromotions doc selectors =
     filter (\<lambda>promo. titulo promo \<noteq> [] \<or> descripcion promo \<noteq> []) (candidates doc selectors)"

section \<open>Scrape session\<close>

record ScrapingResult =
  success :: bool
  data :: "Promotion list option"
  error :: "string option"

text \<open>
  What one call of \<open>scrapeUrl\<close> meets: the browser (\<open>launch\<close>, the page set-up calls,
  \<open>goto\<close> and the two \<open>evaluate\<close> calls each either succeed or reject with a thrown
  value), the rendered document, and the inference environment.
\<close>

record session_env =
  launch :: "exn option"
  page_setup :: "exn option"
  goto :: "string \<Rightarrow> exn option"
  body_outerHTML :: "exn + string"
  evaluate_rejects :: "exn option"
  rendered :: document
  inference :: inference_env

definition msg_no_browser :: string where
  "msg_no_browser = ''No se pudo inicializar el navegador''"

text \<open>\<open>setupPuppeteer\<close>: any failure of the launch is thrown again as a plain \<open>Error\<close>.\<close>

definition setupPuppeteer :: "session_env \<Rightarrow> exn option" where
  "setupPuppeteer env = (case launch env of None \<Rightarrow> None | Some e \<Rightarrow> Some (Error msg_no_browser))"

text \<open>The \<open>try\<close> block of \<open>scrapeUrl\<close>: \<open>Inl\<close> what it throws, \<open>Inr\<close> the extracted records.\<close>

definition scrape_try :: "session_env \<Rightarrow> string \<Rightarrow> exn + Promotion list" where
  "scrape_try env target =
     (case setupPuppeteer env of Some e \<Rightarrow> Inl e | None \<Rightarrow>
      (case page_setup env of Some e \<Rightarrow> Inl e | None \<Rightarrow>
       (case goto env target of Some e \<Rightarrow> Inl e | None \<Rightarrow>
        (case body_outerHTML env of Inl e \<Rightarrow> Inl e | Inr bodyHTML \<Rightarrow>
         (let sanitizedHTML = sanitizeHTML bodyHTML;
              chunks = splitHTMLIntoChunks sanitizedHTML;
              selectorsList = fst (processHTMLChunks (inference env) chunks);
              combinedSelectors = combineSelectors selectorsList
          in case evaluate_rejects env of Some e \<Rightarrow> Inl e
             | None \<Rightarrow> Inr (extractPromotions (rendered env) combinedSelectors))))))"

text \<open>
  \<open>scrapeUrl\<close>: the \<open>catch\<close> turns whatever the \<open>try\<close> block throws into a failed
  result. The \<open>finally\<close> block closes page and browser and swallows their errors, so
  it does not change the result.
\<close>

definition scrapeUrl :: "session_env \<Rightarrow> string \<Rightarrow> ScrapingResult" where
  "scrapeUrl env target =
     (case scrape_try env target of
        Inr promotions \<Rightarrow> \<lparr>success = True, data = Some promotions, error = None\<rparr>
      | Inl e \<Rightarrow> \<lparr>success = False, data = None, error = Some (message_or_unknown e)\<rparr>)"

section \<open>Batch endpoint\<close>

datatype zod_issue = Invalid_type | Invalid_url nat | Too_small string | Too_big string

datatype jvalue =
    JNull
  | JBool bool
  | JNumber int
  | JString string
  | JArray "jvalue list"
  | JObject "(string \<times> jvalue) list"

record response =
  status :: nat
  body :: jvalue

text \<open>
  \<open>NextResponse.json(obj, {status})\<close> for an object literal whose property values may
  be \<open>undefined\<close> (\<open>None\<close>): serialisation leaves such properties out.
\<close>

definition NextResponse_json :: "(string \<times> jvalue option) list \<Rightarrow> nat \<Rightarrow> response" where
  "NextResponse_json props code =
     \<lparr>status = code,
      body = JObject (List.map_filter (\<lambda>(k, v). map_option (\<lambda>j. (k, j)) v) props)\<rparr>"

definition promotion_json :: "Promotion \<Rightarrow> jvalue" where
  "promotion_json p =
     JObject [(''medioPago'', JString (medioPago p)), (''titulo'', JString (titulo p)),
              (''descripcion'', JString (descripcion p)), (''url'', JString (url p)),
              (''fecha'', JString (fecha p)), (''condiciones'', JString (condiciones p))]"

text \<open>An element of the \<open>errors\<close> array: a message, or \<open>undefined\<close>, written \<open>null\<close>.\<close>

definition error_json :: "string option \<Rightarrow> jvalue" where
  "error_json e = (case e of None \<Rightarrow> JNull | Some m \<Rightarrow> JString m)"

text \<open>
  What one request meets: the request body (\<open>req.json()\<close> rejects, or gives a value),
  the URL test of the validation library and the way it writes an issue, the clock at
  the start and at the end, and the environment of the session started for the \<open>i\<close>-th
  URL.
\<close>

record world =
  req_json :: "exn + jvalue"
  is_url :: "string \<Rightarrow> bool"
  issue_json :: "zod_issue \<Rightarrow> jvalue"
  clock_start :: int
  clock_end :: int
  session :: "nat \<Rightarrow> session_env"

definition msg_min_urls :: string where
  "msg_min_urls = ''Se requiere al menos una URL''"

definition msg_max_urls :: string where
  "msg_max_urls = ''M'' @ [CHR 0xE1] @ ''ximo 10 URLs permitidas''"

text \<open>
  \<open>urlSchema.parse\<close>: the body must be an object whose \<open>urls\<close> is an array of one to
  ten texts, each of them a URL. \<open>Inl\<close> the issues, \<open>Inr\<close> the URLs.
\<close>

definition url_issue :: "(string \<Rightarrow> bool) \<Rightarrow> nat \<times> jvalue \<Rightarrow> zod_issue list" where
  "url_issue ok iv =
     (case snd iv of
        JString s \<Rightarrow> if ok s then [] else [Invalid_url (fst iv)]
      | _ \<Rightarrow> [Invalid_type])"

definition url_text :: "jvalue \<Rightarrow> string" where
  "url_text v = (case v of JString s \<Rightarrow> s | _ \<Rightarrow> [])"

definition urlSchema_parse :: "(string \<Rightarrow> bool) \<Rightarrow> jvalue \<Rightarrow> zod_issue list + string list" where
  "urlSchema_parse ok v =
     (case v of
        JObject props \<Rightarrow>
          (case map_of props ''urls'' of
             Some (JArray xs) \<Rightarrow>
               (let issues =
                      (if length xs < 1 then [Too_small msg_min_urls] else [])
                      @ (if length xs > 10 then [Too_big msg_max_urls] else [])
                      @ concat (map (url_issue ok) (enumerate 0 xs))
                in if issues = [] then Inr (map url_text xs) else Inl issues)
           | _ \<Rightarrow> Inl [Invalid_type])
      | _ \<Rightarrow> Inl [Invalid_type])"

text \<open>The three values computed between validation and the response.\<close>

record batch =
  promotions :: "Promotion list"
  errors :: "string option list"
  executionTime :: int

definition run_sessions :: "world \<Rightarrow> string list \<Rightarrow> ScrapingResult list" where
  "run_sessions w urls = map (\<lambda>(i, u). scrapeUrl (session w i) u) (enumerate 0 urls)"

definition aggregate :: "world \<Rightarrow> ScrapingResult list \<Rightarrow> batch" where
  "aggregate w results =
     \<lparr>promotions = concat (map (\<lambda>result. case data result of Some d \<Rightarrow> d | None \<Rightarrow> [])
                             (filter (\<lambda>result. success result) results)),
      errors = map (\<lambda>result. error result) (filter (\<lambda>result. \<not> success result) results),
      executionTime = clock_end w - clock_start w\<rparr>"

definition msg_validation :: string where
  "msg_validation = ''Error de validaci'' @ [CHR 0xF3] @ ''n''"

text \<open>
  The \<open>catch\<close> clause of \<open>POST\<close>: its first branch, taken for the \<open>ZodError\<close> of a
  failed validation, and the other two.
\<close>

definition POST_catch_validation :: "world \<Rightarrow> zod_issue list \<Rightarrow> response" where
  "POST_catch_validation w issues =
     NextResponse_json [(''error'', Some (JString msg_validation)),
                        (''details'', Some (JArray (map (issue_json w) issues)))] 400"

fun POST_catch :: "exn \<Rightarrow> response" where
  "POST_catch (SelectorGenerationError m) =
     NextResponse_json [(''error'', Some (JString ''Error al generar selectores'')),
                        (''message'', Some (JString m))] 422"
| "POST_catch e =
     NextResponse_json [(''error'', Some (JString ''Error interno del servidor'')),
                        (''message'', Some (JString (message_or_unknown e)))] 500"

definition POST :: "world \<Rightarrow> response" where
  "POST w =
     (case req_json w of
        Inl e \<Rightarrow> POST_catch e
      | Inr parsed \<Rightarrow>
          (case urlSchema_parse (is_url w) parsed of
             Inl issues \<Rightarrow> POST_catch_validation w issues
           | Inr urls \<Rightarrow>
               (let b = aggregate w (run_sessions w urls)
                in NextResponse_json
                     [(''promotions'', Some (JArray (map promotion_json (promotions b)))),
                      (''errors'',
                         if length (errors b) > 0 then Some (JArray (map error_json (errors b)))
                         else None),
                      (''executionTime'', Some (JNumber (executionTime b)))] 200)))"

text \<open>Reading a property of a response body.\<close>

definition field :: "jvalue \<Rightarrow> string \<Rightarrow> jvalue option" where
  "field v k = (case v of JObject props \<Rightarrow> map_of props k | _ \<Rightarrow> None)"

section \<open>Example environments\<close>

text \<open>
  A completion service that returns no content for the first chunk and an empty JSON
  object for every later one.
\<close>

definition flaky_service :: inference_env where
  "flaky_service =
     \<lparr>api_key_set = True,
      completion = (\<lambda>i html. if i = 0 then Inr None else Inr (Some ''{}'')),
      JSON_parse = (\<lambda>s. Some Map.empty)\<rparr>"

text \<open>
  A rendered page with three \<open>.title\<close> and three \<open>.desc\<close> elements, on which the
  selector \<open>p[\<close> is rejected, and a combined selector map for it.
\<close>

definition sample_document :: document where
  "sample_document =
     \<lparr>querySelectorAll =
        (\<lambda>sel. if sel = ''.title'' then Some [Some '' Promo A '', Some ''  '', None]
               else if sel = ''.desc'' then Some [Some ''10% off'', None, Some ''only text'']
               else if sel = ''p['' then None
               else Some []),
      location_href = ''https://example.com/promos''\<rparr>"

definition sample_selectors :: selectors where
  "sample_selectors =
     [''medioPago'' \<mapsto> '''', ''titulo'' \<mapsto> ''.title'', ''descripcion'' \<mapsto> ''.desc'',
      ''fecha'' \<mapsto> ''p['', ''condiciones'' \<mapsto> '''']"

text \<open>
  A session in which browser and page work and the API key is not configured.
\<close>

definition keyless_service :: inference_env where
  "keyless_service =
     \<lparr>api_key_set = False,
      completion = (\<lambda>i html. Inr (Some ''{}'')),
      JSON_parse = (\<lambda>s. Some Map.empty)\<rparr>"

definition keyless_session :: session_env where
  "keyless_session =
     \<lparr>launch = None, page_setup = None, goto = (\<lambda>target. None),
      body_outerHTML = Inr ''<body><p class=t>A</p></body>'', evaluate_rejects = None,
      rendered = sample_document, inference = keyless_service\<rparr>"

text \<open>
  A request for one URL, met by the session without API key; and a request for two
  URLs, the first of which times out during navigation while the second is scraped with
  a working completion service.
\<close>

definition promos_request :: jvalue where
  "promos_request = JObject [(''urls'', JArray [JString ''https://example.com/promos''])]"

definition keyless_world :: world where
  "keyless_world =
     \<lparr>req_json = Inr promos_request,
      is_url = (\<lambda>s. prefix ''https://'' s),
      issue_json = (\<lambda>i. JNull),
      clock_start = 1000,
      clock_end = 1250,
      session = (\<lambda>i. keyless_session)\<rparr>"

definition working_service :: inference_env where
  "working_service =
     \<lparr>api_key_set = True,
      completion = (\<lambda>i html. Inr (Some ''{...}'')),
      JSON_parse = (\<lambda>s. Some sample_selectors)\<rparr>"

definition working_session :: session_env where
  "working_session =
     \<lparr>launch = None, page_setup = None, goto = (\<lambda>target. None),
      body_outerHTML = Inr ''<body><p class=t>A</p></body>'', evaluate_rejects = None,
      rendered = sample_document, inference = working_service\<rparr>"

definition timeout_session :: session_env where
  "timeout_session = working_session\<lparr>goto := (\<lambda>target. Some (Error ''Navigation timeout of 30000 ms exceeded''))\<rparr>"

definition two_urls_request :: jvalue where
  "two_urls_request =
     JObject [(''urls'', JArray [JString ''https://example.com/slow'', JString ''https://example.com/promos''])]"

definition two_urls_world :: world where
  "two_urls_world =
     \<lparr>req_json = Inr two_urls_request,
      is_url = (\<lambda>s. prefix ''https://'' s),
      issue_json = (\<lambda>i. JNull),
      clock_start = 1000,
      clock_end = 32000,
      session = (\<lambda>i. if i = 0 then timeout_session else working_session)\<rparr>"

section \<open>Properties of the chunker\<close>

text \<open>C3: the chunks, concatenated in order, are the input.\<close>

theorem splitHTMLIntoChunks_concat: "concat (splitHTMLIntoChunks html) = html"
proof -
  have "concat (chunk_loop lim s) = s" for lim s
  proof (induction lim s rule: chunk_loop.induct)
    case (1 lim s)
    show ?case
    proof (cases "length s = 0 \<or> length s \<le> lim")
      case True
      then show ?thesis by (auto simp: chunk_loop.simps [of lim s])
    next
      case False
      with "1.IH" show ?thesis by (simp add: chunk_loop.simps [of lim s])
    qed
  qed
  then show ?thesis by (simp add: splitHTMLIntoChunks_def)
qed

lemma prefix_set_mono: "prefix pat t \<Longrightarrow> set pat \<subseteq> set t"
  by (auto simp: prefix_def)

lemma lastIndexOf_from_missing_char:
  assumes "c \<in> set pat" and "c \<notin> set s"
  shows "lastIndexOf_from s pat i = - 1"
proof -
  have no: "\<not> prefix pat (drop j s)" for j
  proof
    assume "prefix pat (drop j s)"
    then have "set pat \<subseteq> set (drop j s)" by (rule prefix_set_mono)
    with assms(1) have "c \<in> set (drop j s)" by blast
    then have "c \<in> set s" by (rule in_set_dropD)
    with assms(2) show False by simp
  qed
  show ?thesis
  proof (induction i)
    case 0
    from no [of 0] show ?case by simp
  next
    case (Suc i)
    with no [of "Suc i"] show ?case by simp
  qed
qed

lemma splitIndex_no_div: "CHR ''i'' \<notin> set s \<Longrightarrow> splitIndex lim s = int lim"
  by (simp add: splitIndex_def lastIndexOf_def lastIndexOf_from_missing_char [of "CHR ''i''"])

text \<open>
  C2: a chunk that is not the last one can be longer than \<open>MAX_CHUNK_LENGTH\<close>. On a
  body of 15000 letters, which holds no \<open></div>\<close>, the hard split is made at offset
  15006: the first of the two chunks has 15006 characters, six more than the limit.
\<close>

theorem splitHTMLIntoChunks_over_limit:
  "splitHTMLIntoChunks (''<body>'' @ replicate 15000 (CHR ''a'') @ ''</body>'')
     = [''<body>'' @ replicate 15000 (CHR ''a''), ''</body>'']
   \<and> length (''<body>'' @ replicate 15000 (CHR ''a'')) = MAX_CHUNK_LENGTH + 6"
proof -
  let ?doc = "''<body>'' @ replicate 15000 (CHR ''a'') @ ''</body>''"
  have "CHR ''i'' \<notin> set ?doc" by simp
  then have "splitIndex 15000 ?doc = 15000" by (simp add: splitIndex_no_div)
  then have "chunk_loop 15000 ?doc
        = (''<body>'' @ replicate 15000 (CHR ''a'')) # chunk_loop 15000 ''</body>''"
    by (subst chunk_loop.simps) simp
  moreover have "chunk_loop 15000 ''</body>'' = [''</body>'']"
    by (subst chunk_loop.simps) simp
  ultimately show ?thesis by (simp add: splitHTMLIntoChunks_def MAX_CHUNK_LENGTH_def)
qed

text \<open>What does hold of every chunk: it is at most six characters longer than the limit.\<close>

lemma lastIndexOf_from_le: "lastIndexOf_from s pat i \<le> int i"
  by (induction i) auto

lemma lastIndexOf_le: "lastIndexOf s pat pos \<le> int pos"
proof (cases "length s < length pat")
  case True
  then show ?thesis by (simp add: lastIndexOf_def)
next
  case False
  have "lastIndexOf_from s pat (min pos (length s - length pat))
        \<le> int (min pos (length s - length pat))"
    by (rule lastIndexOf_from_le)
  with False show ?thesis by (simp add: lastIndexOf_def)
qed

lemma splitIndex_le: "splitIndex lim s \<le> int lim"
  using lastIndexOf_le [of s "''</div>''" lim]
  by (simp add: splitIndex_def Let_def)

lemma chunk_loop_bound: "c \<in> set (chunk_loop lim s) \<Longrightarrow> length c \<le> lim + 6"
proof (induction lim s rule: chunk_loop.induct)
  case (1 lim s)
  show ?case
  proof (cases "length s = 0 \<or> length s \<le> lim")
    case True
    with "1.prems" show ?thesis by (auto simp: chunk_loop.simps [of lim s] split: if_splits)
  next
    case False
    with "1.prems" have "c = take (nat (splitIndex lim s + 6)) s
        \<or> c \<in> set (chunk_loop lim (drop (nat (splitIndex lim s + 6)) s))"
      by (simp add: chunk_loop.simps [of lim s])
    then show ?thesis
    proof
      assume "c = take (nat (splitIndex lim s + 6)) s"
      then show ?thesis using splitIndex_le [of lim s] splitIndex_nonneg [of lim s] by simp
    next
      assume "c \<in> set (chunk_loop lim (drop (nat (splitIndex lim s + 6)) s))"
      with "1.IH" False show ?thesis by simp
    qed
  qed
qed

section \<open>Properties of the inference loop\<close>

text \<open>
  C5: more than \<open>MAX_REQUESTS_PER_MINUTE\<close> requests can reach the completion service
  with no suspension between them. With four chunks, of which the first gets an answer
  without content, the loop sends four requests and never suspends: \<open>requestCount\<close>
  counts only the requests whose answer was accepted.
\<close>

theorem processHTMLChunks_four_calls_unsuspended:
  "snd (processHTMLChunks flaky_service [c0, c1, c2, c3])
     = [InferenceCall 0, InferenceCall 1, InferenceCall 2, InferenceCall 3]"
  by (simp add: processHTMLChunks_def flaky_service_def generateSelector_def
      MAX_REQUESTS_PER_MINUTE_def)

text \<open>
  When every answer is accepted the loop does suspend before the fourth request.
\<close>

lemma processHTMLChunks_suspends_after_three:
  "snd (processHTMLChunks working_service [c0, c1, c2, c3])
     = [InferenceCall 0, InferenceCall 1, InferenceCall 2, Suspend 20000, InferenceCall 3]"
  by (simp add: processHTMLChunks_def working_service_def generateSelector_def
      MAX_REQUESTS_PER_MINUTE_def RATE_LIMIT_DELAY_def)

section \<open>Properties of the combiner\<close>

lemma foldl_upd_other:
  "key \<notin> set ks \<Longrightarrow> foldl (\<lambda>m k. m(k \<mapsto> f k)) m0 ks key = m0 key"
  by (induction ks arbitrary: m0) auto

lemma foldl_upd_in:
  "key \<in> set ks \<Longrightarrow> foldl (\<lambda>m k. m(k \<mapsto> f k)) m0 ks key = Some (f key)"
proof (induction ks arbitrary: m0)
  case Nil
  then show ?case by simp
next
  case (Cons k ks)
  show ?case
  proof (cases "key \<in> set ks")
    case True
    with Cons.IH show ?thesis by simp
  next
    case False
    with Cons.prems have k: "key = k" by simp
    have "foldl (\<lambda>m k. m(k \<mapsto> f k)) (m0(k \<mapsto> f k)) ks key = (m0(k \<mapsto> f k)) key"
      using False by (rule foldl_upd_other)
    also have "\<dots> = Some (f key)" using k by simp
    finally show ?thesis by (simp only: foldl_Cons)
  qed
qed

lemma combineSelectors_key:
  "key \<in> set allKeys \<Longrightarrow>
   combineSelectors sl key = Some (join '', '' (filter truthy (map (\<lambda>s. s key) sl)))"
  unfolding combineSelectors_def by (rule foldl_upd_in)

lemma filter_truthy_fragments:
  "filter truthy (map (\<lambda>s. s key) sl)
   = map Some (filter (\<lambda>v. v \<noteq> []) (List.map_filter (\<lambda>s. s key) sl))"
  by (induction sl) (auto split: option.splits)

text \<open>
  C7: for each of the five fields, the combined selector is the non-empty fragments of
  the per-chunk maps for that field, in chunk order, joined by \<open>", "\<close>; when the field
  is absent or empty in every chunk it is the empty text.
\<close>

theorem combineSelectors_joins_fragments:
  assumes "key \<in> set allKeys"
  shows "combineSelectors sl key
           = Some (join '', '' (map Some (filter (\<lambda>v. v \<noteq> []) (List.map_filter (\<lambda>s. s key) sl))))
         \<and> ((\<forall>s \<in> set sl. s key = None \<or> s key = Some []) \<longrightarrow> combineSelectors sl key = Some [])"
proof -
  have eq: "combineSelectors sl key
           = Some (join '', '' (map Some (filter (\<lambda>v. v \<noteq> []) (List.map_filter (\<lambda>s. s key) sl))))"
    using assms by (simp add: combineSelectors_key filter_truthy_fragments)
  have "filter truthy (map (\<lambda>s. s key) sl) = []" if "\<forall>s \<in> set sl. s key = None \<or> s key = Some []"
    using that by (induction sl) auto
  with assms have "(\<forall>s \<in> set sl. s key = None \<or> s key = Some []) \<longrightarrow> combineSelectors sl key = Some []"
    by (simp add: combineSelectors_key)
  with eq show ?thesis by simp
qed

theorem combineSelectors_joins_fragments_witness:
  "''titulo'' \<in> set allKeys \<and> ''medioPago'' \<in> set allKeys
   \<and> combineSelectors [[''titulo'' \<mapsto> ''.a''], Map.empty, [''titulo'' \<mapsto> '''', ''fecha'' \<mapsto> ''.d''],
                     [''titulo'' \<mapsto> ''h2 > b'']] ''titulo'' = Some ''.a, h2 > b''
   \<and> combineSelectors [[''titulo'' \<mapsto> ''.a''], Map.empty, [''titulo'' \<mapsto> '''', ''fecha'' \<mapsto> ''.d''],
                     [''titulo'' \<mapsto> ''h2 > b'']] ''medioPago'' = Some ''''"
proof -
  have k1: "''titulo'' \<in> set allKeys" and k2: "''medioPago'' \<in> set allKeys"
    by (simp_all add: allKeys_def)
  show ?thesis
    using combineSelectors_joins_fragments [OF k1, of "[[''titulo'' \<mapsto> ''.a''], Map.empty, [''titulo'' \<mapsto> '''', ''fecha'' \<mapsto> ''.d''],
                     [''titulo'' \<mapsto> ''h2 > b'']]"]
      combineSelectors_joins_fragments [OF k2, of "[[''titulo'' \<mapsto> ''.a''], Map.empty, [''titulo'' \<mapsto> '''', ''fecha'' \<mapsto> ''.d''],
                     [''titulo'' \<mapsto> ''h2 > b'']]"]
      k1 k2
    by simp
qed

section \<open>Properties of the record extractor\<close>

lemma trim_trim: "trim (trim s) = trim s"
proof -
  define t where "t = dropWhile is_space s"
  define u where "u = rev (dropWhile is_space (rev t))"
  have ru: "rev u = dropWhile is_space (rev t)" by (simp add: u_def)
  have 1: "dropWhile is_space (rev u) = rev u"
    unfolding ru by (simp add: dropWhile_idem)
  have "dropWhile is_space u = u"
  proof (cases "u = []")
    case True
    then show ?thesis by simp
  next
    case False
    then have "rev u \<noteq> []" by simp
    obtain ws where t: "rev t = ws @ rev u"
      unfolding ru by (metis takeWhile_dropWhile_id)
    then have "t = u @ rev ws" by (metis rev_append rev_rev_ident)
    with False have "hd u = hd t" and "t \<noteq> []" by auto
    then have "\<not> is_space (hd u)"
      using hd_dropWhile [of is_space s] by (simp add: t_def)
    then show ?thesis by (simp add: dropWhile_eq_self_iff)
  qed
  with 1 show ?thesis by (simp add: trim_def t_def [symmetric] u_def [symmetric])
qed

lemma trim_Nil: "trim [] = []"
  by (simp add: trim_def)

lemma element_text_trimmed: "trim (element_text e) = element_text e"
  by (cases e) (simp_all add: element_text_def trim_Nil trim_trim)

lemma findElements_trimmed: "t \<in> set (findElements doc sel) \<Longrightarrow> trim t = t"
  by (auto simp: findElements_def element_text_trimmed split: if_splits option.splits)

lemma at_or_empty_trimmed: "trim (at_or_empty (findElements doc sel) i) = at_or_empty (findElements doc sel) i"
  by (auto simp: at_or_empty_def trim_Nil intro: findElements_trimmed nth_mem)

lemma candidates_trimmed:
  assumes "c \<in> set (candidates doc selectors)"
  shows "trim (titulo c) = titulo c \<and> trim (descripcion c) = descripcion c"
proof -
  from assms obtain i where i: "i < length (findElements doc (selectors ''titulo''))"
    and t: "titulo c = findElements doc (selectors ''titulo'') ! i"
    and d: "descripcion c = at_or_empty (findElements doc (selectors ''descripcion'')) i"
    by (auto simp: candidates_def Let_def in_set_enumerate_eq)
  from i have "findElements doc (selectors ''titulo'') ! i \<in> set (findElements doc (selectors ''titulo''))"
    by (rule nth_mem)
  then have "trim (titulo c) = titulo c" unfolding t by (rule findElements_trimmed)
  moreover have "trim (descripcion c) = descripcion c" unfolding d by (rule at_or_empty_trimmed)
  ultimately show ?thesis by simp
qed

text \<open>
  C4: the records returned are exactly the candidates (one per element matched by the
  \<open>titulo\<close> selector) whose \<open>titulo\<close> or \<open>descripcion\<close> is non-empty; both texts are trimmed,
  so every returned record has a non-empty trimmed title or description, and every such
  candidate is returned.
\<close>

theorem extractPromotions_nonempty_iff:
  "set (extractPromotions doc selectors)
     = {c \<in> set (candidates doc selectors). titulo c \<noteq> [] \<or> descripcion c \<noteq> []}
   \<and> (\<forall>r \<in> set (extractPromotions doc selectors).
         (titulo r \<noteq> [] \<or> descripcion r \<noteq> [])
         \<and> trim (titulo r) = titulo r \<and> trim (descripcion r) = descripcion r)
   \<and> (\<forall>c \<in> set (candidates doc selectors).
         titulo c \<noteq> [] \<or> descripcion c \<noteq> [] \<longrightarrow> c \<in> set (extractPromotions doc selectors))"
  by (auto simp: extractPromotions_def candidates_trimmed)

lemma sample_candidates:
  "candidates sample_document sample_selectors =
    [\<lparr>medioPago = '''', titulo = ''Promo A'', descripcion = ''10% off'',
      url = ''https://example.com/promos'', fecha = '''', condiciones = ''''\<rparr>,
     \<lparr>medioPago = '''', titulo = '''', descripcion = '''',
      url = ''https://example.com/promos'', fecha = '''', condiciones = ''''\<rparr>,
     \<lparr>medioPago = '''', titulo = '''', descripcion = ''only text'',
      url = ''https://example.com/promos'', fecha = '''', condiciones = ''''\<rparr>]"
  by code_simp


theorem extractPromotions_nonempty_iff_witness:
  "\<lparr>medioPago = [], titulo = [], descripcion = ''only text'',
      url = ''https://example.com/promos'', fecha = [], condiciones = []\<rparr>
     \<in> set (extractPromotions sample_document sample_selectors)
   \<and> \<lparr>medioPago = [], titulo = [], descripcion = [],
      url = ''https://example.com/promos'', fecha = [], condiciones = []\<rparr>
     \<notin> set (extractPromotions sample_document sample_selectors)"
proof -
  let ?kept = "\<lparr>medioPago = [], titulo = [], descripcion = ''only text'',
      url = ''https://example.com/promos'', fecha = [], condiciones = []\<rparr>"
  let ?dropped = "\<lparr>medioPago = [], titulo = [], descripcion = [],
      url = ''https://example.com/promos'', fecha = [], condiciones = []\<rparr>"
  note facts = extractPromotions_nonempty_iff [of sample_document sample_selectors]
  have "?kept \<in> set (candidates sample_document sample_selectors)"
    unfolding sample_candidates by simp
  moreover have "titulo ?kept \<noteq> [] \<or> descripcion ?kept \<noteq> []" by simp
  ultimately have kept: "?kept \<in> set (extractPromotions sample_document sample_selectors)"
    using facts by blast
  have "\<not> (titulo ?dropped \<noteq> [] \<or> descripcion ?dropped \<noteq> [])" by simp
  then have "?dropped \<notin> set (extractPromotions sample_document sample_selectors)"
    using facts by blast
  with kept show ?thesis by simp
qed

section \<open>Properties of the scrape session\<close>

lemma process_from_all_failed:
  "(\<forall>j < length chunks. isl (snd (generateSelector env (i + j) (chunks ! j))))
   \<Longrightarrow> fst (process_from env i chunks requestCount) = []"
proof (induction chunks arbitrary: i requestCount)
  case Nil
  then show ?case by simp
next
  case (Cons c cs)
  from Cons.prems have here: "isl (snd (generateSelector env i c))" by force
  have "\<forall>j < length cs. isl (snd (generateSelector env (Suc i + j) (cs ! j)))"
  proof (intro allI impI)
    fix j assume "j < length cs"
    then have "Suc j < length (c # cs)" by simp
    with Cons.prems have "isl (snd (generateSelector env (i + Suc j) ((c # cs) ! Suc j)))"
      by blast
    then show "isl (snd (generateSelector env (Suc i + j) (cs ! j)))" by simp
  qed
  then have rest: "fst (process_from env (Suc i) cs rc) = []" for rc
    by (rule Cons.IH)
  obtain called outcome where g: "generateSelector env i c = (called, outcome)"
    by (cases "generateSelector env i c")
  with here obtain e where "outcome = Inl e" by (cases outcome) auto
  with g rest show ?case by (simp add: split_beta Let_def)
qed

lemma combineSelectors_Nil: "key \<in> set allKeys \<Longrightarrow> combineSelectors [] key = Some []"
  by (simp add: combineSelectors_key)

lemma extractPromotions_no_selectors: "extractPromotions doc (combineSelectors []) = []"
  by (simp add: extractPromotions_def candidates_def findElements_def Let_def
      combineSelectors_Nil allKeys_def enumerate_eq_zip)

lemma scrapeUrl_no_selectors:
  assumes "launch env = None" and "page_setup env = None" and "goto env target = None"
    and "body_outerHTML env = Inr bodyHTML" and "evaluate_rejects env = None"
    and "fst (processHTMLChunks (inference env) (splitHTMLIntoChunks (sanitizeHTML bodyHTML))) = []"
  shows "scrapeUrl env target = \<lparr>success = True, data = Some [], error = None\<rparr>"
proof -
  have "scrape_try env target = Inr []"
    using assms
    by (simp add: scrape_try_def setupPuppeteer_def Let_def extractPromotions_no_selectors)
  then show ?thesis by (simp add: scrapeUrl_def)
qed

text \<open>
  C10: when the browser steps succeed and \<open>generateSelector\<close> fails for every chunk of
  the document, no selector map is collected, the combined map binds each of the five
  keys to the empty text, the extraction finds nothing, and \<open>scrapeUrl\<close> returns
  \<open>success: true\<close> with an empty list of records.
\<close>

theorem scrapeUrl_all_chunks_failed:
  assumes "launch env = None" and "page_setup env = None" and "goto env target = None"
    and "body_outerHTML env = Inr bodyHTML" and "evaluate_rejects env = None"
    and "\<forall>j < length (splitHTMLIntoChunks (sanitizeHTML bodyHTML)).
           isl (snd (generateSelector (inference env) j (splitHTMLIntoChunks (sanitizeHTML bodyHTML) ! j)))"
  shows "fst (processHTMLChunks (inference env) (splitHTMLIntoChunks (sanitizeHTML bodyHTML))) = []
         \<and> (\<forall>key \<in> set allKeys. combineSelectors [] key = Some [])
         \<and> extractPromotions (rendered env) (combineSelectors []) = []
         \<and> scrapeUrl env target = \<lparr>success = True, data = Some [], error = None\<rparr>"
proof -
  have none: "fst (processHTMLChunks (inference env) (splitHTMLIntoChunks (sanitizeHTML bodyHTML))) = []"
    unfolding processHTMLChunks_def using assms(6) by (intro process_from_all_failed) simp
  with assms(1-5) have "scrapeUrl env target = \<lparr>success = True, data = Some [], error = None\<rparr>"
    by (rule scrapeUrl_no_selectors)
  with none show ?thesis
    by (simp add: combineSelectors_Nil extractPromotions_no_selectors)
qed

lemma keyless_fails: "isl (snd (generateSelector keyless_service j chunk))"
  by (simp add: generateSelector_def keyless_service_def)

theorem scrapeUrl_all_chunks_failed_witness:
  "scrapeUrl keyless_session ''https://example.com/promos''
     = \<lparr>success = True, data = Some [], error = None\<rparr>"
proof -
  have "launch keyless_session = None" "page_setup keyless_session = None"
    "goto keyless_session ''https://example.com/promos'' = None"
    "body_outerHTML keyless_session = Inr ''<body><p class=t>A</p></body>''"
    "evaluate_rejects keyless_session = None"
    by (simp_all add: keyless_session_def)
  moreover have "\<forall>j < length (splitHTMLIntoChunks (sanitizeHTML ''<body><p class=t>A</p></body>'')).
      isl (snd (generateSelector (inference keyless_session) j
        (splitHTMLIntoChunks (sanitizeHTML ''<body><p class=t>A</p></body>'') ! j)))"
    by (simp add: keyless_session_def keyless_fails)
  ultimately show ?thesis
    using scrapeUrl_all_chunks_failed [of keyless_session "''https://example.com/promos''"
        "''<body><p class=t>A</p></body>''"]
    by blast
qed

section \<open>Properties of the batch endpoint\<close>

lemma scrapeUrl_success: "success (scrapeUrl env target) \<longleftrightarrow> \<not> isl (scrape_try env target)"
  by (simp add: scrapeUrl_def split: sum.splits)

lemma scrapeUrl_data:
  "data (scrapeUrl env target) = (case scrape_try env target of Inl e \<Rightarrow> None | Inr ps \<Rightarrow> Some ps)"
  by (simp add: scrapeUrl_def split: sum.splits)

lemma aggregate_errors_length:
  "length (errors (aggregate w (map (\<lambda>(i, u). scrapeUrl (env i) u) ius)))
   = length (filter isl (map (\<lambda>(i, u). scrape_try (env i) u) ius))"
  by (induction ius) (auto simp: aggregate_def scrapeUrl_success)

lemma aggregate_promotions:
  "promotions (aggregate w (map (\<lambda>(i, u). scrapeUrl (env i) u) ius))
   = concat (map (\<lambda>(i, u). case scrape_try (env i) u of Inl e \<Rightarrow> [] | Inr ps \<Rightarrow> ps) ius)"
  by (induction ius) (auto simp: aggregate_def scrapeUrl_success scrapeUrl_data split: sum.splits)

lemma POST_valid:
  assumes "req_json w = Inr parsed" and "urlSchema_parse (is_url w) parsed = Inr urls"
  shows "POST w =
     NextResponse_json
       [(''promotions'', Some (JArray (map promotion_json (promotions (aggregate w (run_sessions w urls)))))),
        (''errors'',
           if length (errors (aggregate w (run_sessions w urls))) > 0
           then Some (JArray (map error_json (errors (aggregate w (run_sessions w urls)))))
           else None),
        (''executionTime'', Some (JNumber (executionTime (aggregate w (run_sessions w urls)))))] 200"
  using assms by (simp add: POST_def Let_def)

text \<open>
  C1: for a valid request the endpoint answers 200 whatever the sessions do; the
  \<open>errors\<close> list has one entry per session whose \<open>try\<close> block threw, and
  \<open>promotions\<close> is the concatenation, in request order, of the records of the sessions
  that did not throw.
\<close>

theorem POST_isolates_failed_sessions:
  assumes "req_json w = Inr parsed" and "urlSchema_parse (is_url w) parsed = Inr urls"
  shows "length (errors (aggregate w (run_sessions w urls)))
           = length (filter isl (map (\<lambda>(i, u). scrape_try (session w i) u) (enumerate 0 urls)))
       \<and> promotions (aggregate w (run_sessions w urls))
           = concat (map (\<lambda>(i, u). case scrape_try (session w i) u of Inl e \<Rightarrow> [] | Inr ps \<Rightarrow> ps)
                      (enumerate 0 urls))
       \<and> status (POST w) = 200
       \<and> field (body (POST w)) ''promotions''
           = Some (JArray (map promotion_json (promotions (aggregate w (run_sessions w urls)))))"
proof -
  have "status (POST w) = 200"
    and "field (body (POST w)) ''promotions''
           = Some (JArray (map promotion_json (promotions (aggregate w (run_sessions w urls)))))"
    unfolding POST_valid [OF assms] by (simp_all add: NextResponse_json_def field_def List.map_filter_simps)
  then show ?thesis
    unfolding run_sessions_def by (simp add: aggregate_errors_length aggregate_promotions)
qed

text \<open>
  C9, as the code has it: for a valid request the answer is 200 and the body has the
  keys \<open>promotions\<close>, then \<open>errors\<close> only when a session failed, then \<open>executionTime\<close>
  (the elapsed time; there is no key \<open>executionTimeMs\<close>).
\<close>

theorem POST_success_body:
  assumes "req_json w = Inr parsed" and "urlSchema_parse (is_url w) parsed = Inr urls"
  shows "status (POST w) = 200
       \<and> body (POST w) =
           JObject ([(''promotions'', JArray (map promotion_json (promotions (aggregate w (run_sessions w urls)))))]
                    @ (if errors (aggregate w (run_sessions w urls)) = [] then []
                       else [(''errors'', JArray (map error_json (errors (aggregate w (run_sessions w urls)))))])
                    @ [(''executionTime'', JNumber (clock_end w - clock_start w))])"
  unfolding POST_valid [OF assms]
  by (simp add: NextResponse_json_def List.map_filter_simps aggregate_def)

lemma sample_sanitized: "sanitizeHTML ''<body><p class=t>A</p></body>'' = ''<body><p class=t>A</p></body>''"
  by code_simp

lemma sample_chunks: "splitHTMLIntoChunks ''<body><p class=t>A</p></body>'' = [''<body><p class=t>A</p></body>'']"
  by (simp add: splitHTMLIntoChunks_def MAX_CHUNK_LENGTH_def chunk_loop.simps)

lemma sample_extracted:
  "extractPromotions sample_document sample_selectors =
    [\<lparr>medioPago = '''', titulo = ''Promo A'', descripcion = ''10% off'',
      url = ''https://example.com/promos'', fecha = '''', condiciones = ''''\<rparr>,
     \<lparr>medioPago = '''', titulo = '''', descripcion = ''only text'',
      url = ''https://example.com/promos'', fecha = '''', condiciones = ''''\<rparr>]"
  by (simp add: extractPromotions_def sample_candidates)

lemma combine_sample: "combineSelectors [sample_selectors] = sample_selectors"
proof
  fix k
  show "combineSelectors [sample_selectors] k = sample_selectors k"
    by (simp add: combineSelectors_def allKeys_def sample_selectors_def)
qed

lemma working_session_try:
  "scrape_try working_session target =
    Inr [\<lparr>medioPago = '''', titulo = ''Promo A'', descripcion = ''10% off'',
      url = ''https://example.com/promos'', fecha = '''', condiciones = ''''\<rparr>,
     \<lparr>medioPago = '''', titulo = '''', descripcion = ''only text'',
      url = ''https://example.com/promos'', fecha = '''', condiciones = ''''\<rparr>]"
proof -
  have "fst (processHTMLChunks working_service [''<body><p class=t>A</p></body>'']) = [sample_selectors]"
    by (simp add: processHTMLChunks_def working_service_def generateSelector_def
        MAX_REQUESTS_PER_MINUTE_def)
  then show ?thesis
    by (simp add: scrape_try_def working_session_def setupPuppeteer_def sample_sanitized
        sample_chunks combine_sample sample_extracted)
qed

lemma timeout_session_try:
  "scrape_try timeout_session target = Inl (Error ''Navigation timeout of 30000 ms exceeded'')"
  by (simp add: scrape_try_def timeout_session_def working_session_def setupPuppeteer_def)

lemma keyless_session_try: "scrape_try keyless_session target = Inr []"
proof -
  have "fst (processHTMLChunks keyless_service chunks) = []" for chunks
    unfolding processHTMLChunks_def by (rule process_from_all_failed) (simp add: keyless_fails)
  then show ?thesis
    by (simp add: scrape_try_def keyless_session_def setupPuppeteer_def
        extractPromotions_no_selectors)
qed

lemma promos_request_valid:
  "urlSchema_parse (\<lambda>s. prefix ''https://'' s) promos_request = Inr [''https://example.com/promos'']"
  by (simp add: urlSchema_parse_def promos_request_def url_issue_def url_text_def enumerate_eq_zip)

lemma two_urls_request_valid:
  "urlSchema_parse (\<lambda>s. prefix ''https://'' s) two_urls_request
     = Inr [''https://example.com/slow'', ''https://example.com/promos'']"
  by (simp add: urlSchema_parse_def two_urls_request_def url_issue_def url_text_def enumerate_eq_zip)

lemma keyless_world_response:
  "POST keyless_world =
     \<lparr>status = 200,
      body = JObject [(''promotions'', JArray []), (''executionTime'', JNumber 250)]\<rparr>"
proof -
  have 1: "req_json keyless_world = Inr promos_request"
    and 2: "urlSchema_parse (is_url keyless_world) promos_request = Inr [''https://example.com/promos'']"
    by (simp_all add: keyless_world_def promos_request_valid)
  show ?thesis
    unfolding POST_valid [OF 1 2]
    by (simp add: run_sessions_def enumerate_eq_zip scrapeUrl_def keyless_session_try
        aggregate_def NextResponse_json_def List.map_filter_simps keyless_world_def)
qed

lemma POST_422_origin:
  assumes "status (POST w) = 422"
  shows "\<exists>m. req_json w = Inl (SelectorGenerationError m)"
proof (cases "req_json w")
  case (Inl e)
  with assms show ?thesis
    by (cases e) (simp_all add: POST_def NextResponse_json_def)
next
  case (Inr parsed)
  with assms show ?thesis
    by (cases "urlSchema_parse (is_url w) parsed")
      (simp_all add: POST_def POST_catch_validation_def NextResponse_json_def Let_def)
qed

text \<open>
  C6: with the API key missing, a valid request is answered 200 with no promotions and
  no error, not 422: the \<open>SelectorGenerationError\<close> thrown by \<open>generateSelector\<close> is
  caught per chunk in \<open>processHTMLChunks\<close> and never reaches the endpoint. By
  \<open>POST_422_origin\<close> the 422 branch is taken only if \<open>req.json()\<close> itself throws a
  \<open>SelectorGenerationError\<close>.
\<close>

theorem POST_without_key_answers_200:
  "\<not> api_key_set (inference (session keyless_world 0))
   \<and> status (POST keyless_world) = 200
   \<and> body (POST keyless_world)
       = JObject [(''promotions'', JArray []), (''executionTime'', JNumber 250)]"
  by (simp add: keyless_world_response)
    (simp add: keyless_world_def keyless_session_def keyless_service_def)

text \<open>
  C9 as stated fails: the body of a 200 answer has no key \<open>executionTimeMs\<close>; the
  elapsed time is under \<open>executionTime\<close>.
\<close>

theorem POST_body_has_no_executionTimeMs:
  "status (POST keyless_world) = 200
   \<and> field (body (POST keyless_world)) ''executionTimeMs'' = None
   \<and> field (body (POST keyless_world)) ''executionTime'' = Some (JNumber 250)"
  by (simp add: keyless_world_response field_def)

lemma two_urls_world_valid:
  "req_json two_urls_world = Inr two_urls_request"
  "urlSchema_parse (is_url two_urls_world) two_urls_request
     = Inr [''https://example.com/slow'', ''https://example.com/promos'']"
  by (simp_all add: two_urls_world_def two_urls_request_valid)

lemma two_urls_world_session:
  "session two_urls_world 0 = timeout_session" "session two_urls_world (Suc 0) = working_session"
  by (simp_all add: two_urls_world_def)

theorem POST_isolates_failed_sessions_witness:
  "length (errors (aggregate two_urls_world
      (run_sessions two_urls_world [''https://example.com/slow'', ''https://example.com/promos'']))) = 1
   \<and> promotions (aggregate two_urls_world
      (run_sessions two_urls_world [''https://example.com/slow'', ''https://example.com/promos'']))
     = [\<lparr>medioPago = '''', titulo = ''Promo A'', descripcion = ''10% off'',
             url = ''https://example.com/promos'', fecha = '''', condiciones = ''''\<rparr>,
        \<lparr>medioPago = '''', titulo = '''', descripcion = ''only text'',
             url = ''https://example.com/promos'', fecha = '''', condiciones = ''''\<rparr>]
   \<and> status (POST two_urls_world) = 200"
  using POST_isolates_failed_sessions [OF two_urls_world_valid]
  by (simp add: enumerate_eq_zip two_urls_world_session timeout_session_try working_session_try)

lemma two_urls_world_batch:
  "aggregate two_urls_world
      (run_sessions two_urls_world [''https://example.com/slow'', ''https://example.com/promos''])
   = \<lparr>promotions =
        [\<lparr>medioPago = '''', titulo = ''Promo A'', descripcion = ''10% off'',
             url = ''https://example.com/promos'', fecha = '''', condiciones = ''''\<rparr>,
         \<lparr>medioPago = '''', titulo = '''', descripcion = ''only text'',
             url = ''https://example.com/promos'', fecha = '''', condiciones = ''''\<rparr>],
      errors = [Some ''Navigation timeout of 30000 ms exceeded''],
      executionTime = 31000\<rparr>"
  by (simp add: run_sessions_def enumerate_eq_zip aggregate_def scrapeUrl_def
      two_urls_world_def timeout_session_try working_session_try)

theorem POST_success_body_witness:
  "status (POST two_urls_world) = 200
   \<and> body (POST two_urls_world) =
       JObject
        [(''promotions'',
          JArray
           [JObject [(''medioPago'', JString ''''), (''titulo'', JString ''Promo A''),
                     (''descripcion'', JString ''10% off''),
                     (''url'', JString ''https://example.com/promos''),
                     (''fecha'', JString ''''), (''condiciones'', JString '''')],
            JObject [(''medioPago'', JString ''''), (''titulo'', JString ''''),
                     (''descripcion'', JString ''only text''),
                     (''url'', JString ''https://example.com/promos''),
                     (''fecha'', JString ''''), (''condiciones'', JString '''')]]),
         (''errors'', JArray [JString ''Navigation timeout of 30000 ms exceeded'']),
         (''executionTime'', JNumber 31000)]"
  using POST_success_body [OF two_urls_world_valid]
  unfolding two_urls_world_batch
  by (simp add: promotion_json_def error_json_def two_urls_world_def)

section \<open>Properties of the sanitizer\<close>

lemma ms_suffix: "st' \<in> set (ms r st) \<Longrightarrow> suffix (snd st') (snd st)"
proof (induction r st arbitrary: st' rule: ms.induct)
  case (1 st)
  then show ?case by (simp add: ms_plain)
next
  case (2 P st)
  then show ?case
    by (cases "snd st") (auto simp: ms_plain split: if_splits intro: suffix_ConsI)
next
  case (3 a b st)
  then obtain st1 where "st1 \<in> set (ms a st)" "st' \<in> set (ms b st1)"
    by (auto simp: ms_plain)
  with "3.IH" show ?case by (blast intro: suffix_order.trans)
next
  case (4 a b st)
  then show ?case by (cases st') (auto simp: ms_plain)
next
  case (5 a st)
  from "5.prems" consider "st' = st"
    | st1 where "st1 \<in> set (ms a st)" "length (snd st1) < length (snd st)" "st' \<in> set (ms (Star a) st1)"
    unfolding ms.simps(5) [of a st] by (auto split: if_splits)
  then show ?case
  proof cases
    case 1
    then show ?thesis by simp
  next
    case 2
    from "5.IH"(1) [OF 2(1)] "5.IH"(2) [OF 2(1) 2(2) 2(3)]
    show ?thesis by (rule suffix_order.trans [rotated])
  qed
next
  case (6 a st)
  from "6.prems" consider "st' = st"
    | st1 where "st1 \<in> set (ms a st)" "length (snd st1) < length (snd st)" "st' \<in> set (ms (Lazy a) st1)"
    unfolding ms.simps(6) [of a st] by (auto split: if_splits)
  then show ?case
  proof cases
    case 1
    then show ?thesis by simp
  next
    case 2
    from "6.IH"(1) [OF 2(1)] "6.IH"(2) [OF 2(1) 2(2) 2(3)]
    show ?thesis by (rule suffix_order.trans [rotated])
  qed
next
  case (7 a st)
  then show ?case by (auto simp: ms_plain split: if_splits)
next
  case (8 st)
  then show ?case by (auto simp: ms_plain split: if_splits)
next
  case (9 st)
  then show ?case by (auto simp: ms_plain split: if_splits option.splits)
qed

lemma ms_Star_Cls:
  "ms (Star (Cls P)) (p, s) =
     (case s of [] \<Rightarrow> [(p, [])]
      | c # cs \<Rightarrow> if P c then ms (Star (Cls P)) (Some c, cs) @ [(p, c # cs)] else [(p, c # cs)])"
  by (subst ms.simps(5)) (simp add: ms_plain split: list.splits)

lemma ms_Star_Cls_hd:
  "\<exists>p' rest. ms (Star (Cls P)) (p, s) = (p', dropWhile P s) # rest"
proof (induction s arbitrary: p)
  case Nil
  show ?case by (subst ms_Star_Cls) simp
next
  case (Cons c cs)
  show ?case
  proof (cases "P c")
    case True
    from Cons [of "Some c"] obtain p' rest
      where "ms (Star (Cls P)) (Some c, cs) = (p', dropWhile P cs) # rest" by blast
    with True show ?thesis by (subst ms_Star_Cls) simp
  next
    case False
    then show ?thesis by (subst ms_Star_Cls) simp
  qed
qed

lemma first_match_spaces:
  "first_match spaces_re (p, c # cs)
     = (if is_space c then Some (fst (the (first_match spaces_re (p, c # cs))), dropWhile is_space cs)
        else None)"
proof (cases "is_space c")
  case True
  from ms_Star_Cls_hd [of is_space "Some c" cs] obtain p' rest
    where "ms (Star (Cls is_space)) (Some c, cs) = (p', dropWhile is_space cs) # rest" by blast
  with True show ?thesis by (simp add: first_match_def spaces_re_def plus_def ms_plain)
next
  case False
  then show ?thesis by (simp add: first_match_def spaces_re_def plus_def ms_plain)
qed

lemma first_match_spaces_Nil: "first_match spaces_re (p, []) = None"
  by (simp add: first_match_def spaces_re_def plus_def ms_plain)

lemma replace_spaces: "replace_from spaces_re '' '' p s = collapse s"
proof (induction s arbitrary: p rule: collapse.induct)
  case 1
  show ?case by (simp add: replace_from.simps [of _ _ _ "[]"] first_match_spaces_Nil)
next
  case (2 c cs)
  show ?case
  proof (cases "is_space c")
    case True
    then obtain q where m: "first_match spaces_re (p, c # cs) = Some (q, dropWhile is_space cs)"
      using first_match_spaces [of p c cs] by simp
    have "length (dropWhile is_space cs) < length (c # cs)"
      using length_dropWhile_le [of is_space cs] by simp
    with True "2.IH"(1) [OF True, of q] m show ?thesis
      by (simp add: replace_from.simps [of _ _ p "c # cs"])
  next
    case False
    then have "first_match spaces_re (p, c # cs) = None"
      using first_match_spaces [of p c cs] by simp
    with False "2.IH"(2) [OF False, of "Some c"] show ?thesis
      by (simp add: replace_from.simps [of _ _ p "c # cs"])
  qed
qed

lemma collapsed_Cons:
  "collapsed (c # cs) \<longleftrightarrow>
     (is_space c \<longrightarrow> c = CHR '' '' \<and> (cs \<noteq> [] \<longrightarrow> \<not> is_space (hd cs))) \<and> collapsed cs"
  by (cases cs) auto

lemma hd_collapse: "s \<noteq> [] \<Longrightarrow> \<not> is_space (hd s) \<Longrightarrow> hd (collapse s) = hd s"
  by (cases s) auto

lemma collapse_eq_Nil: "collapse s = [] \<longleftrightarrow> s = []"
  by (cases s) auto

lemma collapsed_collapse: "collapsed (collapse s)"
proof (induction s rule: collapse.induct)
  case 1
  show ?case by simp
next
  case (2 c cs)
  show ?case
  proof (cases "is_space c")
    case True
    let ?r = "dropWhile is_space cs"
    have "?r \<noteq> [] \<Longrightarrow> \<not> is_space (hd (collapse ?r))"
      using hd_dropWhile [of is_space cs] by (simp add: hd_collapse)
    with True "2.IH"(1) show ?thesis
      by (simp add: collapsed_Cons collapse_eq_Nil)
  next
    case False
    with "2.IH"(2) show ?thesis by (simp add: collapsed_Cons)
  qed
qed

lemma collapse_collapsed: "collapsed s \<Longrightarrow> collapse s = s"
proof (induction s rule: collapse.induct)
  case 1
  show ?case by simp
next
  case (2 c cs)
  from "2.prems" have tl: "collapsed cs" by (simp add: collapsed_Cons)
  show ?case
  proof (cases "is_space c")
    case True
    with "2.prems" have c: "c = CHR '' ''" and "cs \<noteq> [] \<longrightarrow> \<not> is_space (hd cs)"
      by (simp_all add: collapsed_Cons)
    then have "dropWhile is_space cs = cs" by (auto simp: dropWhile_eq_self_iff)
    with True c tl "2.IH"(1) show ?thesis by simp
  next
    case False
    with tl "2.IH"(2) show ?thesis by simp
  qed
qed

lemma collapsed_append: "collapsed (xs @ ys) \<Longrightarrow> collapsed xs \<and> collapsed ys"
proof (induction xs)
  case Nil
  then show ?case by simp
next
  case (Cons x xs)
  then show ?case by (cases xs; cases ys) (auto simp: collapsed_Cons)
qed

lemma collapsed_dropWhile: "collapsed s \<Longrightarrow> collapsed (dropWhile P s)"
  using collapsed_append [of "takeWhile P s" "dropWhile P s"] by simp

lemma collapsed_rev_dropWhile_rev: "collapsed s \<Longrightarrow> collapsed (rev (dropWhile P (rev s)))"
proof -
  have "s = rev (dropWhile P (rev s)) @ rev (takeWhile P (rev s))"
    by (metis rev_append rev_rev_ident takeWhile_dropWhile_id)
  then show "collapsed s \<Longrightarrow> collapsed (rev (dropWhile P (rev s)))"
    using collapsed_append [of "rev (dropWhile P (rev s))" "rev (takeWhile P (rev s))"] by simp
qed

lemma collapsed_trim: "collapsed s \<Longrightarrow> collapsed (trim s)"
  by (simp add: trim_def collapsed_dropWhile collapsed_rev_dropWhile_rev)

lemma line_terminator_is_space: "is_line_terminator c \<Longrightarrow> is_space c"
  by (auto simp: is_line_terminator_def is_space_def)

lemma collapsed_no_line_terminator: "collapsed s \<Longrightarrow> c \<in> set s \<Longrightarrow> \<not> is_line_terminator c"
proof (induction s)
  case Nil
  then show ?case by simp
next
  case (Cons x xs)
  from Cons.prems(1) have "is_space x \<longrightarrow> x = CHR '' ''" and "collapsed xs"
    by (simp_all add: collapsed_Cons)
  moreover have "\<not> is_line_terminator (CHR '' '')" by (simp add: is_line_terminator_def)
  ultimately show ?case using Cons.IH Cons.prems(2) line_terminator_is_space [of x] by auto
qed

lemma ms_Cls_none: "\<forall>c \<in> set (snd st). \<not> P c \<Longrightarrow> ms (Cls P) st = []"
  by (cases "snd st") (auto simp: ms_plain)

lemma concat_map_empty: "(\<And>x. x \<in> set xs \<Longrightarrow> f x = []) \<Longrightarrow> concat (map f xs) = []"
  by (induction xs) auto

lemma blank_line_re_unfold:
  "blank_line_re = Seq LineStart (Seq (Star (Cls is_space)) (Seq (Cls is_line_terminator) Eps))"
  by (simp add: blank_line_re_def seq_def)

lemma first_match_blank_line:
  assumes "\<forall>c \<in> set s. \<not> is_line_terminator c"
  shows "first_match blank_line_re (p, s) = None"
proof -
  have start: "st1 = (p, s)" if "st1 \<in> set (ms LineStart (p, s))" for st1
    using that by (auto simp: ms_plain split: option.splits if_splits)
  have inner: "ms (Seq (Cls is_line_terminator) Eps) st2 = []"
    if "st2 \<in> set (ms (Star (Cls is_space)) (p, s))" for st2
  proof -
    from that have "suffix (snd st2) s" using ms_suffix by fastforce
    then have "set (snd st2) \<subseteq> set s" by (rule set_mono_suffix)
    with assms have "ms (Cls is_line_terminator) st2 = []"
      by (intro ms_Cls_none) blast
    then show ?thesis by (simp add: ms_plain)
  qed
  have mid: "ms (Seq (Star (Cls is_space)) (Seq (Cls is_line_terminator) Eps)) (p, s) = []"
    by (subst ms.simps(3)) (rule concat_map_empty, rule inner)
  have "ms blank_line_re (p, s)
        = concat (map (\<lambda>st'. ms (Seq (Star (Cls is_space)) (Seq (Cls is_line_terminator) Eps)) st')
                   (ms LineStart (p, s)))"
    unfolding blank_line_re_unfold by (rule ms.simps(3))
  also have "\<dots> = []"
  proof (rule concat_map_empty)
    fix st1 assume "st1 \<in> set (ms LineStart (p, s))"
    then have "st1 = (p, s)" by (rule start)
    with mid show "ms (Seq (Star (Cls is_space)) (Seq (Cls is_line_terminator) Eps)) st1 = []"
      by simp
  qed
  finally have "ms blank_line_re (p, s) = []" .
  then show ?thesis by (simp add: first_match_def)
qed

lemma replace_blank_lines:
  "\<forall>c \<in> set s. \<not> is_line_terminator c \<Longrightarrow> replace_from blank_line_re rep p s = s"
proof (induction s arbitrary: p)
  case Nil
  then show ?case
    by (simp add: replace_from.simps [of _ _ _ "[]"] first_match_blank_line)
next
  case (Cons c cs)
  from Cons.prems have "first_match blank_line_re (p, c # cs) = None"
    by (rule first_match_blank_line)
  moreover from Cons have "replace_from blank_line_re rep (Some c) cs = cs" by simp
  ultimately show ?case by (simp add: replace_from.simps [of _ _ p "c # cs"])
qed

lemma normalize_space_collapsed: "collapsed (normalize_space s)"
  by (simp add: normalize_space_def replace_all_def replace_spaces collapsed_trim collapsed_collapse)

lemma normalize_space_idem: "normalize_space (normalize_space s) = normalize_space s"
proof -
  let ?y = "normalize_space s"
  have c: "collapsed ?y" by (rule normalize_space_collapsed)
  then have "\<forall>c \<in> set ?y. \<not> is_line_terminator c"
    using collapsed_no_line_terminator by blast
  then have 1: "replace_all blank_line_re '''' ?y = ?y"
    unfolding replace_all_def by (rule replace_blank_lines)
  have 2: "replace_all spaces_re '' '' ?y = ?y"
    unfolding replace_all_def replace_spaces using c by (rule collapse_collapsed)
  have 3: "trim ?y = ?y" by (simp add: normalize_space_def trim_trim)
  show ?thesis
    by (subst (1) normalize_space_def) (simp only: 1 2 3)
qed

lemma shrinking_comp: "shrinking f \<Longrightarrow> shrinking g \<Longrightarrow> shrinking (\<lambda>s. f (g s))"
  unfolding shrinking_def by (metis le_antisym le_trans)

lemma replace_from_delete:
  "length (replace_from r [] p s) \<le> length s
   \<and> (length (replace_from r [] p s) = length s \<longrightarrow> replace_from r [] p s = s)"
proof (induction "length s" arbitrary: p s rule: less_induct)
  case less
  show ?case
  proof (cases "first_match r (p, s)")
    case None
    show ?thesis
    proof (cases s)
      case Nil
      with None show ?thesis by (simp add: replace_from.simps [of r _ p "[]"])
    next
      case (Cons c cs)
      with less [of cs "Some c"] None show ?thesis
        by (simp add: replace_from.simps [of r _ p "c # cs"])
    qed
  next
    case (Some st')
    obtain p' s' where st': "st' = (p', s')" by (cases st')
    show ?thesis
    proof (cases "length s' < length s")
      case True
      with less [of s' p'] have "length (replace_from r [] p' s') < length s" by simp
      with Some st' True show ?thesis by (simp add: replace_from.simps [of r _ p s])
    next
      case False
      show ?thesis
      proof (cases s)
        case Nil
        with Some st' False show ?thesis by (simp add: replace_from.simps [of r _ p "[]"])
      next
        case (Cons c cs)
        with less [of cs "Some c"] Some st' False show ?thesis
          by (simp add: replace_from.simps [of r _ p "c # cs"])
      qed
    qed
  qed
qed

lemma shrinking_replace_all: "shrinking (replace_all r [])"
  by (simp add: shrinking_def replace_all_def replace_from_delete)

lemma shrinking_id: "shrinking (\<lambda>s. s)"
  by (simp add: shrinking_def)

lemma shrinking_after_replace: "shrinking g \<Longrightarrow> shrinking (\<lambda>s. replace_all r [] (g s))"
  using shrinking_comp [OF shrinking_replace_all] .

lemma shrinking_strip_markup: "shrinking strip_markup"
proof -
  have "strip_markup =
     (\<lambda>html. replace_all attribute_re ''''
      (replace_all (block_re ''iframe'') ''''
       (replace_all (block_re ''form'') ''''
        (replace_all (block_re ''nav'') ''''
         (replace_all (block_re ''footer'') ''''
          (replace_all comment_re ''''
           (replace_all (block_re ''style'') ''''
            (replace_all (block_re ''script'') ''''
             (replace_all (block_re ''head'') '''' html)))))))))"
    by (rule ext) (simp add: strip_markup_def)
  moreover have "shrinking (\<lambda>html. replace_all attribute_re ''''
      (replace_all (block_re ''iframe'') ''''
       (replace_all (block_re ''form'') ''''
        (replace_all (block_re ''nav'') ''''
         (replace_all (block_re ''footer'') ''''
          (replace_all comment_re ''''
           (replace_all (block_re ''style'') ''''
            (replace_all (block_re ''script'') ''''
             (replace_all (block_re ''head'') '''' html)))))))))"
    by (rule shrinking_after_replace)+ (rule shrinking_id)
  ultimately show ?thesis by simp
qed

lemma length_collapse: "length (collapse s) \<le> length s"
proof (induction s rule: collapse.induct)
  case 1
  show ?case by simp
next
  case (2 c cs)
  then show ?case
    using length_dropWhile_le [of is_space cs] by (cases "is_space c") auto
qed

lemma length_trim: "length (trim s) \<le> length s"
proof -
  have "length (dropWhile is_space (rev (dropWhile is_space s))) \<le> length (rev (dropWhile is_space s))"
    by (rule length_dropWhile_le)
  also have "\<dots> \<le> length s" using length_dropWhile_le [of is_space s] by simp
  finally show ?thesis by (simp add: trim_def)
qed

lemma length_normalize_space: "length (normalize_space s) \<le> length s"
proof -
  have "length (normalize_space s) \<le> length (collapse (replace_all blank_line_re '''' s))"
    by (simp add: normalize_space_def replace_all_def [of spaces_re] replace_spaces length_trim)
  also have "\<dots> \<le> length (replace_all blank_line_re '''' s)" by (rule length_collapse)
  also have "\<dots> \<le> length s" using shrinking_replace_all [of blank_line_re]
    by (simp add: shrinking_def)
  finally show ?thesis .
qed

text \<open>
  C8, as the code has it: sanitizing a sanitized document gives the same document
  exactly when the removal steps find nothing more to remove in it. The white-space
  steps are idempotent by themselves (\<open>normalize_space_idem\<close>).
\<close>

theorem sanitizeHTML_idempotent_iff:
  "sanitizeHTML (sanitizeHTML html) = sanitizeHTML html
   \<longleftrightarrow> strip_markup (sanitizeHTML html) = sanitizeHTML html"
proof
  assume "strip_markup (sanitizeHTML html) = sanitizeHTML html"
  then have "sanitizeHTML (sanitizeHTML html) = normalize_space (sanitizeHTML html)"
    by (simp add: sanitizeHTML_def [of "sanitizeHTML html"])
  also have "\<dots> = sanitizeHTML html" by (simp add: sanitizeHTML_def normalize_space_idem)
  finally show "sanitizeHTML (sanitizeHTML html) = sanitizeHTML html" .
next
  let ?y = "sanitizeHTML html"
  assume fixed: "sanitizeHTML ?y = ?y"
  have "length ?y = length (normalize_space (strip_markup ?y))"
    using fixed by (simp add: sanitizeHTML_def [of ?y])
  also have "\<dots> \<le> length (strip_markup ?y)" by (rule length_normalize_space)
  finally have "length ?y \<le> length (strip_markup ?y)" .
  with shrinking_strip_markup show "strip_markup ?y = ?y"
    unfolding shrinking_def by (metis le_antisym)
qed

theorem sanitizeHTML_idempotent_iff_witness:
  "strip_markup (sanitizeHTML ''<nav>m</nav> <p>  hi </p> '') = sanitizeHTML ''<nav>m</nav> <p>  hi </p> ''
   \<and> sanitizeHTML ''<nav>m</nav> <p>  hi </p> '' = ''<p> hi </p>''
   \<and> sanitizeHTML (sanitizeHTML ''<nav>m</nav> <p>  hi </p> '') = ''<p> hi </p>''"
proof -
  have 1: "sanitizeHTML ''<nav>m</nav> <p>  hi </p> '' = ''<p> hi </p>''"
    by code_simp
  have 2: "strip_markup ''<p> hi </p>'' = ''<p> hi </p>''"
    by code_simp
  from 1 2 have "strip_markup (sanitizeHTML ''<nav>m</nav> <p>  hi </p> '')
      = sanitizeHTML ''<nav>m</nav> <p>  hi </p> ''" by simp
  with sanitizeHTML_idempotent_iff [of "''<nav>m</nav> <p>  hi </p> ''"] 1 show ?thesis by simp
qed

text \<open>
  C8 as stated fails: removing the comment from \<open><scr<!---->ipt>x</script>\<close> leaves a
  \<open>script\<close> element, which only a second run removes.
\<close>

theorem sanitizeHTML_not_idempotent:
  "sanitizeHTML ''<scr<!---->ipt>x</script>'' = ''<script>x</script>''
   \<and> sanitizeHTML (sanitizeHTML ''<scr<!---->ipt>x</script>'') = ''''
   \<and> sanitizeHTML (sanitizeHTML ''<scr<!---->ipt>x</script>'') \<noteq> sanitizeHTML ''<scr<!---->ipt>x</script>''"
proof -
  have 1: "sanitizeHTML ''<scr<!---->ipt>x</script>'' = ''<script>x</script>''"
    by code_simp
  have 2: "sanitizeHTML ''<script>x</script>'' = ''''"
    by code_simp
  show ?thesis by (simp add: 1 2)
qed

end
